theory Spec2Isabelle
  imports Main "HOL-Library.Word"
begin

section \<open>JavaScript values and the session payload\<close>

text \<open>
  The constructor \<open>Debugger(title, data)\<close> of \<open>lib/debugger.js\<close> receives an arbitrary
  JavaScript value and inspects it with \<open>typeof\<close>, \<open>Array.isArray\<close> and
  \<open>Buffer.isBuffer\<close>. The values it can tell apart are the constructors of \<open>jsval\<close>;
  an object is the association list of its own properties.
\<close>

type_synonym byte = "8 word"

datatype jsval =
    JUndefined
  | JNull
  | JBool bool
  | JNum int
  | JStr string
  | JArr "jsval list"
  | JBuf "byte list"
  | JObj "(string \<times> jsval) list"

text \<open>
  \<open>assert\<close> throws an \<open>AssertionError\<close> carrying its message; \<open>Thrown\<close> is an exception
  raised inside a collaborator (the script compiler).
\<close>

datatype error = AssertionError string | Thrown string

fun typeof :: "jsval \<Rightarrow> string" where
  "typeof JUndefined = ''undefined''"
| "typeof JNull = ''object''"
| "typeof (JBool b) = ''boolean''"
| "typeof (JNum n) = ''number''"
| "typeof (JStr s) = ''string''"
| "typeof (JArr xs) = ''object''"
| "typeof (JBuf bs) = ''object''"
| "typeof (JObj kvs) = ''object''"

fun truthy :: "jsval \<Rightarrow> bool" where
  "truthy JUndefined = False"
| "truthy JNull = False"
| "truthy (JBool b) = b"
| "truthy (JNum n) = (n \<noteq> 0)"
| "truthy (JStr s) = (s \<noteq> [])"
| "truthy (JArr xs) = True"
| "truthy (JBuf bs) = True"
| "truthy (JObj kvs) = True"

fun isArray :: "jsval \<Rightarrow> bool" where
  "isArray (JArr xs) = True"
| "isArray v = False"

fun isBuffer :: "jsval \<Rightarrow> bool" where
  "isBuffer (JBuf bs) = True"
| "isBuffer v = False"

text \<open>
  Reading one of the properties \<open>hash\<close>, \<open>output\<close>, \<open>input\<close>: an object yields the
  stored value, every other value that passed the first assertion (an array, a buffer)
  has no such property and yields \<open>undefined\<close>.
\<close>

fun get_prop :: "jsval \<Rightarrow> string \<Rightarrow> jsval" where
  "get_prop (JObj kvs) k = (case map_of kvs k of Some v \<Rightarrow> v | None \<Rightarrow> JUndefined)"
| "get_prop v k = JUndefined"

text \<open>
  \<open>Buffer.from(s, 'hex')\<close> decodes pairs of hexadecimal digits and stops, without an
  error, at the first pair that is not two digits; a trailing single character is
  dropped.
\<close>

definition hex_value :: "char \<Rightarrow> nat option" where
  "hex_value c =
     (let n = (of_char c :: nat) in
      if 48 \<le> n \<and> n \<le> 57 then Some (n - 48)
      else if 97 \<le> n \<and> n \<le> 102 then Some (n - 87)
      else if 65 \<le> n \<and> n \<le> 70 then Some (n - 55)
      else None)"

fun buffer_from_hex :: "string \<Rightarrow> byte list" where
  "buffer_from_hex (a # b # cs) =
     (case hex_value a of
        None \<Rightarrow> []
      | Some x \<Rightarrow>
          (case hex_value b of
             None \<Rightarrow> []
           | Some y \<Rightarrow> of_nat (16 * x + y) # buffer_from_hex cs))"
| "buffer_from_hex cs = []"

fun string_of :: "jsval \<Rightarrow> string" where
  "string_of (JStr s) = s"
| "string_of v = []"

text \<open>
  The session's \<open>hash\<close> is documented as a hex string. This predicate follows the
  documentation's wording, not the code: a string of hexadecimal digits.
\<close>

definition is_hex_string :: "jsval \<Rightarrow> bool" where
  "is_hex_string v =
     (case v of
        JStr s \<Rightarrow> list_all (\<lambda>c. hex_value c \<noteq> None) s
      | _ \<Rightarrow> False)"

text \<open>\<open>this.data\<close>: the fields \<open>hash\<close>, \<open>output\<close> and \<open>input\<close> after conversion.\<close>

record session_data =
  data_hash :: "byte list"
  data_output :: "byte list"
  data_input :: "byte list"

section \<open>The collaborators: interpreter, disassembler, compiler\<close>

text \<open>
  \<open>hackchain-core\<close> (the \<open>Interpreter\<close>, its \<open>Disassembler\<close>, \<open>TX.Script\<close>) is required
  by \<open>lib/debugger.js\<close> and is not part of it. The debugger uses the members below and
  nothing else; they are a parameter of every definition that calls them. \<open>'vm\<close> is the
  whole state of an \<open>Interpreter\<close> instance; a method that mutates the instance returns
  the new state, and \<open>prerunOneOutput\<close>, \<open>runOneBoth\<close> also return their result, read
  as a condition.
\<close>

record thread =
  pc :: int
  regs :: "int list"

record 'vm hackchain =
  maxInitTicks :: nat
  maxTicks :: nat
  outputOffset :: int
  inputOffset :: int
  compileTextArray :: "jsval list \<Rightarrow> int \<Rightarrow> string + byte list"
  newInterpreter :: "'vm"
  clear :: "'vm \<Rightarrow> 'vm"
  prepareOutput :: "session_data \<Rightarrow> 'vm \<Rightarrow> 'vm"
  prepareInput :: "session_data \<Rightarrow> 'vm \<Rightarrow> 'vm"
  prerunOneOutput :: "'vm \<Rightarrow> bool \<times> 'vm"
  runOneBoth :: "'vm \<Rightarrow> bool \<times> 'vm"
  clearYield :: "'vm \<Rightarrow> 'vm"
  isDone :: "'vm \<Rightarrow> bool"
  threads_output :: "'vm \<Rightarrow> thread"
  threads_input :: "'vm \<Rightarrow> thread"
  memory :: "'vm \<Rightarrow> byte list"
  disassemble :: "byte list \<Rightarrow> string"

section \<open>The debugger and its stepping state machine\<close>

text \<open>
  \<open>this.state\<close> holds one of the strings \<open>'output'\<close>, \<open>'both'\<close>, \<open>'success'\<close>,
  \<open>'failure'\<close>; \<open>this.counter\<close> counts up from 0.
\<close>

datatype phase = Output | Both | Success | Failure

record 'vm debugger =
  data :: session_data
  interpreter :: "'vm"
  state :: phase
  counter :: nat

text \<open>
  Lines 25-30: an array is compiled (the compiler may throw, \<open>Inl\<close> its message), a
  buffer is taken as it is. The assertions before let no other value through.
\<close>

definition opcodes_of :: "'vm hackchain \<Rightarrow> jsval \<Rightarrow> int \<Rightarrow> error + byte list" where
  "opcodes_of E v offset =
     (case v of
        JArr xs \<Rightarrow>
          (case compileTextArray E xs offset of
             Inl msg \<Rightarrow> Inl (Thrown msg)
           | Inr opcodes \<Rightarrow> Inr opcodes)
      | JBuf bs \<Rightarrow> Inr bs
      | _ \<Rightarrow> Inr [])"

text \<open>
  Lines 14-38. The four assertions run in order; then the payload is converted and the
  fields are initialised. The title and \<open>initUI\<close> only build widgets.
\<close>

definition Debugger :: "'vm hackchain \<Rightarrow> jsval \<Rightarrow> error + 'vm debugger" where
  "Debugger E d =
     (if \<not> (truthy d \<and> typeof d = ''object'')
      then Inl (AssertionError ''Debugger: data must be an object'')
      else if typeof (get_prop d ''hash'') \<noteq> ''string''
      then Inl (AssertionError ''Debugger: `data.hash` must be a string'')
      else if \<not> (isArray (get_prop d ''output'') \<or> isBuffer (get_prop d ''output''))
      then Inl (AssertionError ''Debugger: `data.output` must be an Array or Buffer'')
      else if \<not> (isArray (get_prop d ''input'') \<or> isBuffer (get_prop d ''input''))
      then Inl (AssertionError ''Debugger: `data.input` must be an Array or Buffer'')
      else
        (case opcodes_of E (get_prop d ''output'') (outputOffset E) of
           Inl e \<Rightarrow> Inl e
         | Inr out \<Rightarrow>
             (case opcodes_of E (get_prop d ''input'') (inputOffset E) of
                Inl e \<Rightarrow> Inl e
              | Inr inp \<Rightarrow>
                  Inr \<lparr>data = \<lparr>data_hash = buffer_from_hex (string_of (get_prop d ''hash'')),
                                data_output = out, data_input = inp\<rparr>,
                       interpreter = newInterpreter E,
                       state = Output,
                       counter = 0\<rparr>)))"

text \<open>Lines 45-53. The closing \<open>this.update()\<close> repaints the widgets (see \<open>update\<close>).\<close>

definition restart :: "'vm hackchain \<Rightarrow> 'vm debugger \<Rightarrow> 'vm debugger" where
  "restart E d =
     d\<lparr>state := Output, counter := 0,
       interpreter := prepareOutput E (data d) (clear E (interpreter d))\<rparr>"

text \<open>Lines 102-105.\<close>

definition finish :: "bool \<Rightarrow> 'vm debugger \<Rightarrow> 'vm debugger" where
  "finish result d = d\<lparr>state := (if result then Success else Failure), counter := 0\<rparr>"

text \<open>Lines 71-89.\<close>

definition stepOutput :: "'vm hackchain \<Rightarrow> 'vm debugger \<Rightarrow> 'vm debugger" where
  "stepOutput E d =
     (case prerunOneOutput E (interpreter d) of
        (progress, vm) \<Rightarrow>
          if \<not> progress then
            (let d1 = d\<lparr>interpreter := vm, counter := counter d + 1\<rparr> in
             if counter d1 \<ge> maxInitTicks E then finish False d1 else d1)
          else
            (let vm1 = clearYield E vm in
             if isDone E vm1 then finish True (d\<lparr>interpreter := vm1\<rparr>)
             else d\<lparr>interpreter := prepareInput E (data d) vm1, counter := 0, state := Both\<rparr>))"

text \<open>Lines 91-100.\<close>

definition stepBoth :: "'vm hackchain \<Rightarrow> 'vm debugger \<Rightarrow> 'vm debugger" where
  "stepBoth E d =
     (case runOneBoth E (interpreter d) of
        (progress, vm) \<Rightarrow>
          if \<not> progress then
            (let d1 = d\<lparr>interpreter := vm, counter := counter d + 1\<rparr> in
             if counter d1 \<ge> maxTicks E then finish True d1 else d1)
          else finish True (d\<lparr>interpreter := vm\<rparr>))"

text \<open>
  Lines 59-69. In the states \<open>'success'\<close> and \<open>'failure'\<close> the last branch does nothing.
  The closing \<open>this.update()\<close> repaints the widgets from the fields and changes none of
  them.
\<close>

definition step :: "'vm hackchain \<Rightarrow> 'vm debugger \<Rightarrow> 'vm debugger" where
  "step E d =
     (if state d = Output then stepOutput E d
      else if state d = Both then stepBoth E d
      else d)"

text \<open>\<open>steps E n d\<close>: the debugger after \<open>n\<close> consecutive calls of \<open>step()\<close>.\<close>

primrec steps :: "'vm hackchain \<Rightarrow> nat \<Rightarrow> 'vm debugger \<Rightarrow> 'vm debugger" where
  "steps E 0 d = d"
| "steps E (Suc n) d = step E (steps E n d)"

text \<open>
  Lines 246-290: the menu binds \<open>Step\<close> to \<open>this.step()\<close> and \<open>Restart\<close> to
  \<open>this.restart()\<close> (\<open>Exit\<close> leaves the process). Line 41: \<open>run()\<close> is \<open>restart()\<close>.
\<close>

datatype menu_item = Step | Restart

fun press :: "'vm hackchain \<Rightarrow> 'vm debugger \<Rightarrow> menu_item \<Rightarrow> 'vm debugger" where
  "press E d Step = step E d"
| "press E d Restart = restart E d"

definition run :: "'vm hackchain \<Rightarrow> 'vm debugger \<Rightarrow> 'vm debugger" where
  "run E d = restart E d"

text \<open>
  A whole session: the constructor, \<open>run()\<close>, then the menu items pressed one after the
  other. Only the constructor has an error result: \<open>restart\<close>, \<open>step\<close>, \<open>_stepOutput\<close>,
  \<open>_stepBoth\<close> and \<open>finish\<close> (lines 45-105) contain no \<open>assert\<close> and no \<open>throw\<close>.
\<close>

definition session :: "'vm hackchain \<Rightarrow> jsval \<Rightarrow> menu_item list \<Rightarrow> error + 'vm debugger" where
  "session E payload cmds =
     (case Debugger E payload of
        Inl e \<Rightarrow> Inl e
      | Inr d \<Rightarrow> Inr (foldl (press E) (run E d) cmds))"

text \<open>
  The tick counter against the budget of the phase: below \<open>maxInitTicks\<close> in \<open>'output'\<close>,
  below \<open>maxTicks\<close> in \<open>'both'\<close>, zero once finished.
\<close>

definition within_budget :: "'vm hackchain \<Rightarrow> 'vm debugger \<Rightarrow> bool" where
  "within_budget E d =
     (case state d of
        Output \<Rightarrow> counter d < maxInitTicks E
      | Both \<Rightarrow> counter d < maxTicks E
      | Success \<Rightarrow> counter d = 0
      | Failure \<Rightarrow> counter d = 0)"

section \<open>The address formatter of \<open>updateThread\<close>\<close>

text \<open>
  \<open>lib/debugger.js\<close>, lines 131-142: the arrow function \<open>addr\<close> prints a number in
  base 16 with \<open>Number.prototype.toString(16)\<close> and pads it to four digits by a chain
  of tests on the length of that string. JavaScript's \<open>toString(16)\<close> of an integer is
  the lowercase digit string of its magnitude, with a leading minus sign for a negative
  number.
\<close>

definition hex_digit :: "nat \<Rightarrow> char" where
  "hex_digit d = ''0123456789abcdef'' ! d"

function toString16_nat :: "nat \<Rightarrow> string" where
  "toString16_nat n =
     (if n < 16 then [hex_digit n] else toString16_nat (n div 16) @ [hex_digit (n mod 16)])"
  by pat_completeness auto
termination
  by (relation "measure (\<lambda>n. n)") auto

declare toString16_nat.simps [simp del]

definition toString16 :: "int \<Rightarrow> string" where
  "toString16 i =
     (if i < 0 then CHR ''-'' # toString16_nat (nat (- i)) else toString16_nat (nat i))"

definition addr :: "int \<Rightarrow> string" where
  "addr i =
     (let r = toString16 i in
      if length r = 1 then ''0x000'' @ r
      else if length r = 2 then ''0x00'' @ r
      else if length r = 3 then ''0x0'' @ r
      else if length r = 4 then ''0x'' @ r
      else ''0x....'')"

section \<open>Rendering a thread: \<open>updateThread\<close>\<close>

text \<open>
  JavaScript's \<open>x >> n\<close> converts \<open>x\<close> to a signed 32-bit integer and shifts it
  arithmetically.
\<close>

definition toInt32 :: "int \<Rightarrow> int" where
  "toInt32 x = (x + 2 ^ 31) mod 2 ^ 32 - 2 ^ 31"

definition sar :: "int \<Rightarrow> nat \<Rightarrow> int" where
  "sar x n = toInt32 x div 2 ^ n"

text \<open>
  \<open>Buffer.prototype.slice(start, end)\<close>: a negative offset counts from the end of the
  buffer, both offsets are clamped to the buffer, and an end before the start gives the
  empty buffer.
\<close>

definition adjustOffset :: "int \<Rightarrow> int \<Rightarrow> int" where
  "adjustOffset offset len =
     (if offset < 0 then (if offset + len > 0 then offset + len else 0)
      else if offset < len then offset
      else len)"

definition buffer_slice :: "'a list \<Rightarrow> int \<Rightarrow> int \<Rightarrow> 'a list" where
  "buffer_slice buf start end =
     (let len = int (length buf);
          s = adjustOffset start len;
          e = adjustOffset end len
      in if e > s then take (nat (e - s)) (drop (nat s) buf) else [])"

text \<open>\<open>String.prototype.split('\n')\<close>: the pieces between line feeds, at least one.\<close>

fun split_lines :: "string \<Rightarrow> string list" where
  "split_lines [] = [[]]"
| "split_lines (c # cs) =
     (if c = CHR 0x0A then [] # split_lines cs
      else (c # hd (split_lines cs)) # tl (split_lines cs))"

text \<open>Lines 144-145: \<open>while (lines.length < box.height - 1) lines.unshift('...')\<close>.\<close>

function unshift_loop :: "int \<Rightarrow> string list \<Rightarrow> string list" where
  "unshift_loop n lines =
     (if int (length lines) < n then unshift_loop n (''...'' # lines) else lines)"
  by pat_completeness auto
termination
  by (relation "measure (\<lambda>(n, lines). nat (n - int (length lines)))") auto

declare unshift_loop.simps [simp del]

text \<open>Decimal \<open>toString()\<close> of a loop index, and \<open>Array.prototype.join(' ')\<close>.\<close>

function toString10_nat :: "nat \<Rightarrow> string" where
  "toString10_nat n =
     (if n < 10 then [hex_digit n] else toString10_nat (n div 10) @ [hex_digit (n mod 10)])"
  by pat_completeness auto
termination
  by (relation "measure (\<lambda>n. n)") auto

declare toString10_nat.simps [simp del]

fun join_space :: "string list \<Rightarrow> string" where
  "join_space [] = []"
| "join_space [x] = x"
| "join_space (x # y # ys) = x @ '' '' @ join_space (y # ys)"

text \<open>
  What \<open>updateThread(box, bar, thread)\<close> leaves in its two widgets: the items of the
  list box, its selected row, the background of that row, and the content of the bar.
\<close>

record pane =
  items :: "string list"
  selected :: int
  selected_bg :: string
  content :: string

text \<open>Lines 147-151: the callback of \<open>lines.map\<close>, for the line at index \<open>i\<close>.\<close>

definition label_line :: "int \<Rightarrow> int \<Rightarrow> nat \<times> string \<Rightarrow> string" where
  "label_line start contextBefore p =
     (case p of
        (i, line) \<Rightarrow>
          (let mem = max 0 (sar start 1 + int i);
               prefix = (if int i = contextBefore then ''* '' else ''  '')
           in prefix @ addr mem @ '': '' @ line))"

text \<open>Lines 163-167: one entry for each register but the first.\<close>

definition reg_entries :: "int list \<Rightarrow> string list" where
  "reg_entries rs =
     map (\<lambda>i. ''{bold}r'' @ toString10_nat i @ '':{/bold}'' @ addr (rs ! i)) [1..<length rs]"

text \<open>
  Lines 116-124: the window around the program counter. \<open>height\<close> is \<open>box.height\<close>;
  the list shows \<open>height - 1\<close> rows. \<open>window_start\<close> and \<open>window_end\<close> are the
  source's \<open>start\<close> and \<open>end\<close>, \<open>window_code\<close> is its \<open>code\<close>.
\<close>

definition contextBefore :: "int \<Rightarrow> int" where
  "contextBefore height = sar (height - 1) 1"

definition contextAfter :: "int \<Rightarrow> int" where
  "contextAfter height = height - 1 - contextBefore height"

definition window_start :: "int \<Rightarrow> thread \<Rightarrow> int" where
  "window_start height th = pc th - 2 * contextBefore height"

definition window_end :: "int \<Rightarrow> thread \<Rightarrow> int" where
  "window_end height th = pc th + 2 * contextAfter height"

definition window_code :: "byte list \<Rightarrow> int \<Rightarrow> thread \<Rightarrow> byte list" where
  "window_code mem height th =
     (if window_start height th < 0 then buffer_slice mem 0 (window_end height th)
      else buffer_slice mem (window_start height th) (window_end height th))"

text \<open>
  Lines 125-129: the text of the disassembler for that window, split at line feeds.
\<close>

definition decoded_lines :: "'vm hackchain \<Rightarrow> byte list \<Rightarrow> int \<Rightarrow> thread \<Rightarrow> string list" where
  "decoded_lines E mem height th = split_lines (disassemble E (window_code mem height th))"

text \<open>
  Lines 115-170. \<open>st\<close> is \<open>this.state\<close>, \<open>mem\<close> is \<open>this.interpreter.memory\<close>.
\<close>

definition updateThread ::
  "'vm hackchain \<Rightarrow> phase \<Rightarrow> byte list \<Rightarrow> int \<Rightarrow> thread \<Rightarrow> pane" where
  "updateThread E st mem height th =
     (let lines = decoded_lines E mem height th;
          lines1 = unshift_loop (height - 1) lines;
          lines2 =
            map (label_line (window_start height th) (contextBefore height)) (enumerate 0 lines1)
      in \<lparr>items = lines2,
          selected = contextBefore height,
          selected_bg =
            (if st = Success then ''green'' else if st = Failure then ''red'' else ''grey''),
          content = join_space (reg_entries (regs th))\<rparr>)"

text \<open>
  Lines 107-113: both panes, from the heights of the two list boxes, then the screen is
  drawn.
\<close>

definition update :: "'vm hackchain \<Rightarrow> int \<Rightarrow> int \<Rightarrow> 'vm debugger \<Rightarrow> pane \<times> pane" where
  "update E output_height input_height d =
     (updateThread E (state d) (memory E (interpreter d)) output_height
        (threads_output E (interpreter d)),
      updateThread E (state d) (memory E (interpreter d)) input_height
        (threads_input E (interpreter d)))"

section \<open>Sample collaborators for the examples\<close>

text \<open>
  A small interpreter on which the theorems below are instantiated. Its state is the
  number of ticks since the last \<open>clear\<close> or \<open>prepareInput\<close>. The output thread makes
  progress on tick \<open>output_at\<close> and both threads on tick \<open>both_at\<close> (never when that is
  0); \<open>done\<close> is the answer of \<open>isDone\<close>. Its disassembler prints one \<open>nop\<close> for every
  two bytes and ends every line with a line feed.
\<close>

definition stub_vm :: "nat \<Rightarrow> nat \<Rightarrow> nat \<Rightarrow> bool \<Rightarrow> nat \<Rightarrow> nat hackchain" where
  "stub_vm init_budget joint_budget output_at done both_at =
     \<lparr>maxInitTicks = init_budget,
      maxTicks = joint_budget,
      outputOffset = 0,
      inputOffset = 0,
      compileTextArray = (\<lambda>xs offset. Inr []),
      newInterpreter = 0,
      clear = (\<lambda>vm. 0),
      prepareOutput = (\<lambda>d vm. vm),
      prepareInput = (\<lambda>d vm. 0),
      prerunOneOutput = (\<lambda>vm. (Suc vm = output_at, Suc vm)),
      runOneBoth = (\<lambda>vm. (Suc vm = both_at, Suc vm)),
      clearYield = (\<lambda>vm. vm),
      isDone = (\<lambda>vm. done),
      threads_output = (\<lambda>vm. \<lparr>pc = 2 * int vm, regs = [0, int vm]\<rparr>),
      threads_input = (\<lambda>vm. \<lparr>pc = 0, regs = [0, 0]\<rparr>),
      memory = (\<lambda>vm. [0, 0, 0, 0]),
      disassemble = (\<lambda>code. concat (replicate (length code div 2) (''nop'' @ [CHR 0x0A])))\<rparr>"

definition sample_payload :: jsval where
  "sample_payload =
     JObj [(''hash'', JStr ''00ff''), (''output'', JBuf [1, 2]), (''input'', JBuf [3, 4])]"

text \<open>
  A compiler that accepts an array of \<open>nop\<close> lines, two zero bytes each, and throws on
  anything else; the sample interpreter with that compiler; a payload whose \<open>output\<close>
  is such an array.
\<close>

definition nop_compiler :: "jsval list \<Rightarrow> int \<Rightarrow> string + byte list" where
  "nop_compiler xs offset =
     (if list_all (\<lambda>x. x = JStr ''nop'') xs then Inr (concat (map (\<lambda>x. [0, 0]) xs))
      else Inl ''unknown instruction'')"

definition picky_vm :: "nat hackchain" where
  "picky_vm = (stub_vm 3 2 0 False 0)\<lparr>compileTextArray := nop_compiler\<rparr>"

definition array_payload :: jsval where
  "array_payload =
     JObj [(''hash'', JStr ''00ff''), (''output'', JArr [JStr ''nop'', JStr ''nop'']),
           (''input'', JBuf [3, 4])]"

definition unchecked_hash_payload :: jsval where
  "unchecked_hash_payload =
     JObj [(''hash'', JStr ''zz''), (''output'', JBuf []), (''input'', JBuf [])]"

text \<open>The debugger built from \<open>sample_payload\<close>, put in the state \<open>st\<close>.\<close>

definition stub_debugger :: "phase \<Rightarrow> nat debugger" where
  "stub_debugger st =
     \<lparr>data = \<lparr>data_hash = [0, 255], data_output = [1, 2], data_input = [3, 4]\<rparr>,
      interpreter = 0, state = st, counter = 0\<rparr>"

definition sample_thread :: thread where
  "sample_thread = \<lparr>pc = 2, regs = [0, 1, 43981]\<rparr>"

section \<open>The address labels\<close>

lemma toString16_nat_1: "n < 16 \<Longrightarrow> toString16_nat n = [hex_digit n]"
  by (subst toString16_nat.simps) simp

lemma toString16_nat_step:
  "16 \<le> n \<Longrightarrow> toString16_nat n = toString16_nat (n div 16) @ [hex_digit (n mod 16)]"
  by (subst toString16_nat.simps) simp

lemma toString16_nat_2:
  assumes "16 \<le> n" "n < 256"
  shows "toString16_nat n = [hex_digit (n div 16), hex_digit (n mod 16)]"
proof -
  have "n div 16 < 16" using assms by simp
  then show ?thesis using assms by (simp add: toString16_nat_step toString16_nat_1)
qed

lemma toString16_nat_3:
  assumes "256 \<le> n" "n < 4096"
  shows "toString16_nat n =
    [hex_digit (n div 256), hex_digit (n div 16 mod 16), hex_digit (n mod 16)]"
proof -
  have "16 \<le> n div 16" "n div 16 < 256" using assms by simp_all
  then have "toString16_nat (n div 16) =
      [hex_digit (n div 16 div 16), hex_digit (n div 16 mod 16)]"
    by (rule toString16_nat_2)
  moreover have "n div 16 div 16 = n div 256" by (simp add: div_mult2_eq [symmetric])
  ultimately show ?thesis using assms by (simp add: toString16_nat_step)
qed

lemma toString16_nat_4:
  assumes "4096 \<le> n" "n < 65536"
  shows "toString16_nat n =
    [hex_digit (n div 4096), hex_digit (n div 256 mod 16),
     hex_digit (n div 16 mod 16), hex_digit (n mod 16)]"
proof -
  have "256 \<le> n div 16" "n div 16 < 4096" using assms by simp_all
  then have "toString16_nat (n div 16) =
      [hex_digit (n div 16 div 256), hex_digit (n div 16 div 16 mod 16),
       hex_digit (n div 16 mod 16)]"
    by (rule toString16_nat_3)
  moreover have "n div 16 div 256 = n div 4096" "n div 16 div 16 = n div 256"
    by (simp_all add: div_mult2_eq [symmetric])
  ultimately show ?thesis using assms by (simp add: toString16_nat_step)
qed

lemma length_toString16_nat_ge:
  "16 ^ k \<le> n \<Longrightarrow> k < length (toString16_nat n)"
proof (induction k arbitrary: n)
  case 0
  then show ?case by (subst toString16_nat.simps) simp
next
  case (Suc k)
  then have "16 \<le> n"
    by (metis le_trans one_le_numeral one_le_power power_Suc mult.right_neutral mult_le_mono2)
  moreover from Suc.prems have "16 ^ k \<le> n div 16"
    by (simp add: less_eq_div_iff_mult_less_eq mult.commute)
  ultimately show ?case using Suc.IH [of "n div 16"] by (simp add: toString16_nat_step)
qed

lemma hex_digit_0: "hex_digit 0 = CHR ''0''"
  by (simp add: hex_digit_def)

lemma replicate_3: "replicate 3 c = [c, c, c]"
  by (simp add: numeral_3_eq_3)

lemma replicate_2: "replicate 2 c = [c, c]"
  by (simp add: numeral_2_eq_2)

lemma addr_nat_digits:
  assumes "n < 65536"
  shows "addr (int n) = ''0x'' @ [hex_digit (n div 4096), hex_digit (n div 256 mod 16),
     hex_digit (n div 16 mod 16), hex_digit (n mod 16)]
   \<and> length (toString16 (int n)) \<le> 4
   \<and> addr (int n) = ''0x'' @ replicate (4 - length (toString16 (int n))) CHR ''0'' @ toString16 (int n)"
proof -
  consider "n < 16" | "16 \<le> n" "n < 256" | "256 \<le> n" "n < 4096" | "4096 \<le> n" "n < 65536"
    using assms by linarith
  then show ?thesis
  proof cases
    case 1
    then show ?thesis
      by (simp add: addr_def toString16_def toString16_nat_1 hex_digit_0 replicate_3 replicate_2)
  next
    case 2
    then have "n div 256 = 0" "n div 4096 = 0" by simp_all
    with 2 show ?thesis
      by (simp add: addr_def toString16_def toString16_nat_2 hex_digit_0 replicate_3 replicate_2)
  next
    case 3
    then have "n div 4096 = 0" "n div 256 mod 16 = n div 256" by simp_all
    with 3 show ?thesis
      by (simp add: addr_def toString16_def toString16_nat_3 hex_digit_0 replicate_3 replicate_2)
  next
    case 4
    then show ?thesis
      by (simp add: addr_def toString16_def toString16_nat_4 hex_digit_0)
  qed
qed

lemma addr_nat_overflow:
  assumes "65536 \<le> n"
  shows "4 < length (toString16 (int n)) \<and> addr (int n) = ''0x....''"
proof -
  have "(16::nat) ^ 4 \<le> n" using assms by simp
  then have "4 < length (toString16_nat n)" by (rule length_toString16_nat_ge)
  then show ?thesis by (simp add: addr_def toString16_def)
qed

text \<open>
  Claim C7. For an offset \<open>0 \<le> offset\<close> whose hexadecimal form has at most four digits
  (\<open>offset < 0x10000\<close>), \<open>addr\<close> yields \<open>0x\<close> followed by exactly four lowercase
  hexadecimal digits, the digits of the offset padded on the left with \<open>0\<close>; for a
  larger offset it yields the marker \<open>0x....\<close>. The three examples of the specification
  are instances.
\<close>

theorem addr_format:
  assumes "0 \<le> offset"
  shows "(offset < 65536 \<longrightarrow>
            length (toString16 offset) \<le> 4
            \<and> addr offset =
                ''0x'' @ replicate (4 - length (toString16 offset)) CHR ''0'' @ toString16 offset
            \<and> addr offset =
                ''0x'' @ [hex_digit (nat offset div 4096), hex_digit (nat offset div 256 mod 16),
                          hex_digit (nat offset div 16 mod 16), hex_digit (nat offset mod 16)])
    \<and> (65536 \<le> offset \<longrightarrow> 4 < length (toString16 offset) \<and> addr offset = ''0x....'')
    \<and> addr 0x1 = ''0x0001''
    \<and> addr 0xABCD = ''0xabcd''
    \<and> addr 0x12345 = ''0x....''"
proof -
  obtain n where n: "offset = int n" using assms by (metis nonneg_int_cases)
  have small: "n < 65536 \<Longrightarrow>
      length (toString16 (int n)) \<le> 4
      \<and> addr (int n) =
          ''0x'' @ replicate (4 - length (toString16 (int n))) CHR ''0'' @ toString16 (int n)
      \<and> addr (int n) =
          ''0x'' @ [hex_digit (n div 4096), hex_digit (n div 256 mod 16),
                    hex_digit (n div 16 mod 16), hex_digit (n mod 16)]"
    using addr_nat_digits [of n] by blast
  have large: "65536 \<le> n \<Longrightarrow> 4 < length (toString16 (int n)) \<and> addr (int n) = ''0x....''"
    by (rule addr_nat_overflow)
  have ex1: "addr 0x1 = ''0x0001''"
    using addr_nat_digits [of 1] by (simp add: hex_digit_def)
  have ex2: "addr 0xABCD = ''0xabcd''"
    using addr_nat_digits [of "0xABCD"] by (simp add: hex_digit_def)
  have ex3: "addr 0x12345 = ''0x....''"
    using addr_nat_overflow [of "0x12345"] by simp
  have lt: "int n < 65536 \<longleftrightarrow> n < 65536" and ge: "65536 \<le> int n \<longleftrightarrow> 65536 \<le> n"
    by linarith+
  show ?thesis
    unfolding n nat_int lt ge using small large ex1 ex2 ex3 by blast
qed

theorem addr_format_witness:
  "addr 255 = ''0x00ff'' \<and> addr 65535 = ''0xffff'' \<and> addr 65536 = ''0x....'' \<and> addr 0 = ''0x0000''"
proof -
  have digits: "addr offset =
      ''0x'' @ [hex_digit (nat offset div 4096), hex_digit (nat offset div 256 mod 16),
                hex_digit (nat offset div 16 mod 16), hex_digit (nat offset mod 16)]"
    if "0 \<le> offset" "offset < 65536" for offset
    using addr_format [OF that(1)] that(2) by blast
  have marker: "addr offset = ''0x....''" if "0 \<le> offset" "65536 \<le> offset" for offset
    using addr_format [OF that(1)] that(2) by blast
  have "addr 255 = ''0x00ff''"
    using digits [of 255] by (simp add: hex_digit_def)
  moreover have "addr 65535 = ''0xffff''"
    using digits [of 65535] by (simp add: hex_digit_def)
  moreover have "addr 65536 = ''0x....''"
    using marker [of 65536] by simp
  moreover have "addr 0 = ''0x0000''"
    using digits [of 0] by (simp add: hex_digit_def)
  ultimately show ?thesis by simp
qed

section \<open>The stepping state machine\<close>

lemma stepOutput_stall:
  assumes "\<not> fst (prerunOneOutput E (interpreter d))"
  shows "stepOutput E d =
    (if maxInitTicks E \<le> Suc (counter d)
     then d\<lparr>interpreter := snd (prerunOneOutput E (interpreter d)), counter := 0, state := Failure\<rparr>
     else d\<lparr>interpreter := snd (prerunOneOutput E (interpreter d)), counter := Suc (counter d)\<rparr>)"
  using assms by (cases "prerunOneOutput E (interpreter d)") (simp add: stepOutput_def finish_def Let_def)

lemma stepBoth_stall:
  assumes "\<not> fst (runOneBoth E (interpreter d))"
  shows "stepBoth E d =
    (if maxTicks E \<le> Suc (counter d)
     then d\<lparr>interpreter := snd (runOneBoth E (interpreter d)), counter := 0, state := Success\<rparr>
     else d\<lparr>interpreter := snd (runOneBoth E (interpreter d)), counter := Suc (counter d)\<rparr>)"
  using assms by (cases "runOneBoth E (interpreter d)") (simp add: stepBoth_def finish_def Let_def)

lemma stepBoth_progress:
  assumes "fst (runOneBoth E (interpreter d))"
  shows "stepBoth E d = d\<lparr>interpreter := snd (runOneBoth E (interpreter d)), state := Success, counter := 0\<rparr>"
  using assms by (cases "runOneBoth E (interpreter d)") (simp add: stepBoth_def finish_def)

lemma step_terminal: "state d = Success \<or> state d = Failure \<Longrightarrow> step E d = d"
  by (auto simp: step_def)

lemma steps_terminal: "state d = Success \<or> state d = Failure \<Longrightarrow> steps E n d = d"
  by (induction n) (auto simp: step_terminal)

lemma steps_add: "steps E (m + n) d = steps E n (steps E m d)"
  by (induction n) simp_all

lemma bootstrap_stall_prefix:
  assumes "state d = Output" "counter d = 0"
    and "\<forall>j<k. \<not> fst (prerunOneOutput E (interpreter (steps E j d)))"
    and "k < maxInitTicks E"
  shows "state (steps E k d) = Output \<and> counter (steps E k d) = k"
  using assms(3,4)
proof (induction k)
  case 0
  then show ?case using assms(1,2) by simp
next
  case (Suc k)
  then have IH: "state (steps E k d) = Output" "counter (steps E k d) = k" by simp_all
  have "\<not> fst (prerunOneOutput E (interpreter (steps E k d)))" using Suc.prems by simp
  then show ?case using IH Suc.prems(2) by (simp add: step_def stepOutput_stall)
qed

lemma joint_stall_prefix:
  assumes "state d = Both" "counter d = 0"
    and "\<forall>j<k. \<not> fst (runOneBoth E (interpreter (steps E j d)))"
    and "k < maxTicks E"
  shows "state (steps E k d) = Both \<and> counter (steps E k d) = k"
  using assms(3,4)
proof (induction k)
  case 0
  then show ?case using assms(1,2) by simp
next
  case (Suc k)
  then have IH: "state (steps E k d) = Both" "counter (steps E k d) = k" by simp_all
  have "\<not> fst (runOneBoth E (interpreter (steps E k d)))" using Suc.prems by simp
  then show ?case using IH Suc.prems(2) by (simp add: step_def stepBoth_stall)
qed

lemma steps_after_terminal:
  assumes "state (steps E n d) = Success \<or> state (steps E n d) = Failure" "n \<le> k"
  shows "steps E k d = steps E n d"
proof -
  from assms(2) obtain m where "k = n + m" using le_Suc_ex by blast
  then show ?thesis using assms(1) by (simp add: steps_add steps_terminal)
qed

text \<open>
  Claim C3. Let the debugger be in the state \<open>'output'\<close> with counter 0, let the budget
  \<open>maxInitTicks\<close> be at least 1, and let \<open>prerunOneOutput\<close> report no progress at each of
  the first \<open>maxInitTicks\<close> calls of \<open>step()\<close>. Then after every smaller number \<open>k\<close> of
  calls the state is still \<open>'output'\<close> with counter \<open>k\<close>; after exactly \<open>maxInitTicks\<close>
  calls the state is \<open>'failure'\<close> and the counter is 0; and the state is \<open>'failure'\<close>
  after \<open>k\<close> calls if and only if \<open>k\<close> is at least \<open>maxInitTicks\<close>.
\<close>

theorem bootstrap_timeout:
  assumes "0 < maxInitTicks E" and "state d = Output" and "counter d = 0"
    and "\<forall>k<maxInitTicks E. \<not> fst (prerunOneOutput E (interpreter (steps E k d)))"
  shows "(\<forall>k<maxInitTicks E. state (steps E k d) = Output \<and> counter (steps E k d) = k)
    \<and> state (steps E (maxInitTicks E) d) = Failure
    \<and> counter (steps E (maxInitTicks E) d) = 0
    \<and> (\<forall>k. state (steps E k d) = Failure \<longleftrightarrow> maxInitTicks E \<le> k)"
proof -
  let ?N = "maxInitTicks E"
  have prefix: "state (steps E k d) = Output \<and> counter (steps E k d) = k" if "k < ?N" for k
    using assms(2,3) _ that by (rule bootstrap_stall_prefix) (use assms(4) that in simp)
  obtain n where n: "?N = Suc n" using assms(1) by (cases ?N) simp_all
  have "state (steps E n d) = Output" "counter (steps E n d) = n"
    "\<not> fst (prerunOneOutput E (interpreter (steps E n d)))"
    using prefix [of n] assms(4) n by simp_all
  then have last: "state (steps E ?N d) = Failure \<and> counter (steps E ?N d) = 0"
    using n by (simp add: step_def stepOutput_stall)
  have "state (steps E k d) = Failure \<longleftrightarrow> ?N \<le> k" for k
  proof (cases "k < ?N")
    case True
    then show ?thesis using prefix [of k] by simp
  next
    case False
    then have "steps E k d = steps E ?N d"
      using last by (intro steps_after_terminal) simp_all
    then show ?thesis using last False by simp
  qed
  then show ?thesis using prefix last by blast
qed

theorem bootstrap_timeout_witness:
  "state (steps (stub_vm 3 2 0 False 0) 2 (stub_debugger Output)) = Output
   \<and> state (steps (stub_vm 3 2 0 False 0) 3 (stub_debugger Output)) = Failure
   \<and> counter (steps (stub_vm 3 2 0 False 0) 3 (stub_debugger Output)) = 0"
proof -
  let ?E = "stub_vm 3 2 0 False 0"
  let ?d = "stub_debugger Output"
  have h: "\<forall>k<maxInitTicks ?E. \<not> fst (prerunOneOutput ?E (interpreter (steps ?E k ?d)))"
    by (simp add: stub_vm_def)
  have "0 < maxInitTicks ?E" "state ?d = Output" "counter ?d = 0"
    by (simp_all add: stub_vm_def stub_debugger_def)
  from bootstrap_timeout [OF this h] have
    "(\<forall>k<3. state (steps ?E k ?d) = Output \<and> counter (steps ?E k ?d) = k)
      \<and> state (steps ?E 3 ?d) = Failure \<and> counter (steps ?E 3 ?d) = 0"
    by (simp add: stub_vm_def)
  then show ?thesis by simp
qed

text \<open>
  Claim C1. Let the debugger be in the state \<open>'both'\<close>. If the counter is 0, the budget
  \<open>maxTicks\<close> is at least 1 and \<open>runOneBoth\<close> reports no progress at each of the first
  \<open>maxTicks\<close> calls of \<open>step()\<close>, the state is \<open>'both'\<close> after fewer than \<open>maxTicks\<close>
  calls and \<open>'success'\<close> from the call number \<open>maxTicks\<close> on. If the counter is 0 and
  the first progress is reported at the call number \<open>k\<close>, \<open>1 \<le> k \<le> maxTicks\<close>, the
  state is \<open>'both'\<close> before that call and \<open>'success'\<close> from it on. Whatever the counter
  and the reports, no number of calls leads from \<open>'both'\<close> to \<open>'failure'\<close>.
\<close>

theorem joint_outcome:
  assumes "state d = Both"
  shows "(counter d = 0 \<and> 0 < maxTicks E
          \<and> (\<forall>k<maxTicks E. \<not> fst (runOneBoth E (interpreter (steps E k d))))
        \<longrightarrow> (\<forall>k. state (steps E k d) = (if k < maxTicks E then Both else Success)))
    \<and> (\<forall>k. counter d = 0 \<and> 0 < k \<and> k \<le> maxTicks E
          \<and> (\<forall>j<k - 1. \<not> fst (runOneBoth E (interpreter (steps E j d))))
          \<and> fst (runOneBoth E (interpreter (steps E (k - 1) d)))
        \<longrightarrow> (\<forall>j. state (steps E j d) = (if j < k then Both else Success)))
    \<and> (\<forall>n. state (steps E n d) \<noteq> Failure)"
proof (intro conjI impI allI)
  fix k
  assume h: "counter d = 0 \<and> 0 < maxTicks E
          \<and> (\<forall>k<maxTicks E. \<not> fst (runOneBoth E (interpreter (steps E k d))))"
  let ?M = "maxTicks E"
  have prefix: "state (steps E j d) = Both \<and> counter (steps E j d) = j" if "j < ?M" for j
    using assms _ _ that by (rule joint_stall_prefix) (use h that in simp_all)
  obtain n where n: "?M = Suc n" using h by (cases ?M) simp_all
  have "state (steps E n d) = Both" "counter (steps E n d) = n"
    "\<not> fst (runOneBoth E (interpreter (steps E n d)))"
    using prefix [of n] h n by simp_all
  then have last: "state (steps E ?M d) = Success"
    using n by (simp add: step_def stepBoth_stall)
  show "state (steps E k d) = (if k < ?M then Both else Success)"
  proof (cases "k < ?M")
    case True
    then show ?thesis using prefix [of k] by simp
  next
    case False
    then have "steps E k d = steps E ?M d"
      using last by (intro steps_after_terminal) simp_all
    then show ?thesis using last False by simp
  qed
next
  fix k j
  assume h: "counter d = 0 \<and> 0 < k \<and> k \<le> maxTicks E
          \<and> (\<forall>j<k - 1. \<not> fst (runOneBoth E (interpreter (steps E j d))))
          \<and> fst (runOneBoth E (interpreter (steps E (k - 1) d)))"
  then obtain k' where k': "k = Suc k'" by (cases k) simp_all
  have prefix: "state (steps E i d) = Both" if "i \<le> k'" for i
  proof -
    have "state (steps E i d) = Both \<and> counter (steps E i d) = i"
      using assms by (rule joint_stall_prefix) (use h k' that in simp_all)
    then show ?thesis ..
  qed
  have last: "state (steps E k d) = Success"
    using prefix [of k'] h k' by (simp add: step_def stepBoth_progress)
  show "state (steps E j d) = (if j < k then Both else Success)"
  proof (cases "j < k")
    case True
    then show ?thesis using prefix k' by simp
  next
    case False
    then have "steps E j d = steps E k d"
      using last by (intro steps_after_terminal) simp_all
    then show ?thesis using last False by simp
  qed
next
  fix n
  have "state (steps E n d) = Both \<or> state (steps E n d) = Success"
  proof (induction n)
    case 0
    then show ?case using assms by simp
  next
    case (Suc n)
    then show ?case
      by (cases "fst (runOneBoth E (interpreter (steps E n d)))")
        (auto simp: step_def stepBoth_stall stepBoth_progress)
  qed
  then show "state (steps E n d) \<noteq> Failure" by auto
qed

theorem joint_outcome_witness:
  "state (steps (stub_vm 3 2 0 False 0) 1 (stub_debugger Both)) = Both
   \<and> state (steps (stub_vm 3 2 0 False 0) 2 (stub_debugger Both)) = Success
   \<and> state (steps (stub_vm 3 3 0 False 2) 1 (stub_debugger Both)) = Both
   \<and> state (steps (stub_vm 3 3 0 False 2) 2 (stub_debugger Both)) = Success"
proof -
  let ?E = "stub_vm 3 2 0 False 0"
  let ?F = "stub_vm 3 3 0 False 2"
  let ?d = "stub_debugger Both"
  have d: "state ?d = Both" by (simp add: stub_debugger_def)
  have "counter ?d = 0 \<and> 0 < maxTicks ?E
     \<and> (\<forall>k<maxTicks ?E. \<not> fst (runOneBoth ?E (interpreter (steps ?E k ?d))))"
    by (simp add: stub_vm_def stub_debugger_def)
  with joint_outcome [OF d, of ?E]
  have "\<forall>k. state (steps ?E k ?d) = (if k < maxTicks ?E then Both else Success)"
    by blast
  then have E: "\<forall>k. state (steps ?E k ?d) = (if k < 2 then Both else Success)"
    by (simp add: stub_vm_def)
  have "counter ?d = 0 \<and> 0 < (2::nat) \<and> 2 \<le> maxTicks ?F
     \<and> (\<forall>j<2 - 1. \<not> fst (runOneBoth ?F (interpreter (steps ?F j ?d))))
     \<and> fst (runOneBoth ?F (interpreter (steps ?F (2 - 1) ?d)))"
    by (simp add: stub_vm_def stub_debugger_def step_def stepBoth_def)
  with joint_outcome [OF d, of ?F]
  have F: "\<forall>j. state (steps ?F j ?d) = (if j < 2 then Both else Success)"
    by blast
  from E [rule_format, of 1] E [rule_format, of 2] F [rule_format, of 1] F [rule_format, of 2]
  show ?thesis by simp
qed

text \<open>
  Claim C4. A \<open>step()\<close> in the state \<open>'output'\<close> at which \<open>prerunOneOutput\<close> reports
  progress: when the output thread is done (asked after its yield flag is cleared) the
  state becomes \<open>'success'\<close> at once, with counter 0; otherwise the interpreter gets
  \<open>prepareInput(this.data)\<close>, the counter becomes 0 and the state becomes \<open>'both'\<close>.
  The session data is not touched.
\<close>

theorem bootstrap_progress:
  assumes "state d = Output" and "prerunOneOutput E (interpreter d) = (True, vm)"
  shows "(isDone E (clearYield E vm) \<longrightarrow>
            state (step E d) = Success \<and> counter (step E d) = 0
            \<and> interpreter (step E d) = clearYield E vm)
    \<and> (\<not> isDone E (clearYield E vm) \<longrightarrow>
            state (step E d) = Both \<and> counter (step E d) = 0
            \<and> interpreter (step E d) = prepareInput E (data d) (clearYield E vm))
    \<and> data (step E d) = data d"
  using assms by (simp add: step_def stepOutput_def finish_def Let_def)

theorem bootstrap_progress_witness:
  "state (step (stub_vm 3 2 1 True 0) (stub_debugger Output)) = Success
   \<and> state (step (stub_vm 3 2 1 False 0) (stub_debugger Output)) = Both
   \<and> counter (step (stub_vm 3 2 1 False 0) (stub_debugger Output)) = 0
   \<and> interpreter (step (stub_vm 3 2 1 False 0) (stub_debugger Output)) = 0"
proof -
  let ?E = "stub_vm 3 2 1 True 0"
  let ?F = "stub_vm 3 2 1 False 0"
  let ?d = "stub_debugger Output"
  have d: "state ?d = Output" by (simp add: stub_debugger_def)
  have E: "prerunOneOutput ?E (interpreter ?d) = (True, 1)"
    and F: "prerunOneOutput ?F (interpreter ?d) = (True, 1)"
    by (simp_all add: stub_vm_def stub_debugger_def)
  from bootstrap_progress [OF d E] bootstrap_progress [OF d F]
  show ?thesis by (simp add: stub_vm_def)
qed

text \<open>
  Claim C5. In the states \<open>'success'\<close> and \<open>'failure'\<close> a call of \<open>step()\<close>, and any
  number of calls, leaves the whole debugger as it is (state, counter, interpreter and
  data), so that what \<open>update\<close> paints is the same as before.
\<close>

theorem terminal_step:
  assumes "state d = Success \<or> state d = Failure"
  shows "step E d = d \<and> steps E n d = d
    \<and> update E output_height input_height (step E d) = update E output_height input_height d"
  using assms by (simp add: step_terminal steps_terminal)

theorem terminal_step_witness:
  "step (stub_vm 3 2 1 False 1) (stub_debugger Failure) = stub_debugger Failure
   \<and> steps (stub_vm 3 2 1 False 1) 5 (stub_debugger Success) = stub_debugger Success"
proof -
  have "state (stub_debugger Failure) = Success \<or> state (stub_debugger Failure) = Failure"
    and "state (stub_debugger Success) = Success \<or> state (stub_debugger Success) = Failure"
    by (simp_all add: stub_debugger_def)
  from terminal_step [OF this(1)] terminal_step [OF this(2)]
  show ?thesis by simp
qed

text \<open>
  Claim C6. From every state of the debugger \<open>restart()\<close> yields the state \<open>'output'\<close>
  with counter 0, and the interpreter cleared and prepared for the session's output
  program; the session data is kept. \<open>restart\<close> is a total function: it has no error
  result. A second \<open>restart()\<close> changes neither state, counter nor data, and changes
  nothing at all when the interpreter's \<open>clear()\<close> discards its whole state.
\<close>

theorem restart_resets:
  "state (restart E d) = Output
   \<and> counter (restart E d) = 0
   \<and> interpreter (restart E d) = prepareOutput E (data d) (clear E (interpreter d))
   \<and> data (restart E d) = data d
   \<and> state (restart E (restart E d)) = state (restart E d)
   \<and> counter (restart E (restart E d)) = counter (restart E d)
   \<and> data (restart E (restart E d)) = data (restart E d)
   \<and> ((\<forall>v w. clear E v = clear E w) \<longrightarrow> restart E (restart E d) = restart E d)"
proof -
  have "restart E (restart E d) = restart E d" if "\<forall>v w. clear E v = clear E w"
  proof -
    have "clear E (prepareOutput E (data d) (clear E (interpreter d))) = clear E (interpreter d)"
      using that by blast
    then show ?thesis by (simp add: restart_def)
  qed
  then show ?thesis by (simp add: restart_def)
qed

theorem restart_resets_witness:
  "restart (stub_vm 3 2 1 False 1) (steps (stub_vm 3 2 1 False 1) 2 (stub_debugger Output))
     = stub_debugger Output
   \<and> restart (stub_vm 3 2 1 False 1) (restart (stub_vm 3 2 1 False 1) (stub_debugger Failure))
     = restart (stub_vm 3 2 1 False 1) (stub_debugger Failure)"
proof -
  let ?E = "stub_vm 3 2 1 False 1"
  have c: "\<forall>v w. clear ?E v = clear ?E w" by (simp add: stub_vm_def)
  have "restart ?E (steps ?E 2 (stub_debugger Output)) = stub_debugger Output"
    using restart_resets [of ?E "steps ?E 2 (stub_debugger Output)"]
    by (simp add: stub_vm_def stub_debugger_def numeral_2_eq_2 step_def stepOutput_def
        stepBoth_def finish_def restart_def)
  moreover have "restart ?E (restart ?E (stub_debugger Failure)) = restart ?E (stub_debugger Failure)"
    using restart_resets [of ?E "stub_debugger Failure"] c by blast
  ultimately show ?thesis by simp
qed

lemma within_budget_restart:
  "0 < maxInitTicks E \<Longrightarrow> within_budget E (restart E d)"
  by (simp add: within_budget_def restart_def)

lemma within_budget_step:
  assumes "0 < maxTicks E" and "within_budget E d"
  shows "within_budget E (step E d)"
proof (cases "state d")
  case Output
  show ?thesis
  proof (cases "prerunOneOutput E (interpreter d)")
    case (Pair progress vm)
    with Output assms show ?thesis
      by (auto simp: within_budget_def step_def stepOutput_def finish_def Let_def)
  qed
next
  case Both
  show ?thesis
  proof (cases "runOneBoth E (interpreter d)")
    case (Pair progress vm)
    with Both assms show ?thesis
      by (auto simp: within_budget_def step_def stepBoth_def finish_def Let_def)
  qed
next
  case Success
  with assms show ?thesis by (simp add: step_def)
next
  case Failure
  with assms show ?thesis by (simp add: step_def)
qed

lemma within_budget_press:
  "0 < maxInitTicks E \<Longrightarrow> 0 < maxTicks E \<Longrightarrow> within_budget E d \<Longrightarrow> within_budget E (press E d c)"
  by (cases c) (simp_all add: within_budget_restart within_budget_step)

lemma within_budget_presses:
  "0 < maxInitTicks E \<Longrightarrow> 0 < maxTicks E \<Longrightarrow> within_budget E d
    \<Longrightarrow> within_budget E (foldl (press E) d cs)"
  by (induction cs arbitrary: d) (simp_all add: within_budget_press)

lemma Debugger_initial:
  assumes "Debugger E payload = Inr d"
  shows "state d = Output \<and> counter d = 0"
  using assms by (auto simp: Debugger_def split: if_splits sum.splits)

text \<open>
  Claim C10. Let both budgets be at least 1 and let the debugger be constructed from any
  payload. After \<open>run()\<close>, and after every sequence of \<open>Step\<close> and \<open>Restart\<close> from the
  menu, the counter is below \<open>maxInitTicks\<close> in the state \<open>'output'\<close>, below \<open>maxTicks\<close>
  in the state \<open>'both'\<close>, and 0 in the states \<open>'success'\<close> and \<open>'failure'\<close>.
\<close>

theorem counter_within_budget:
  assumes "0 < maxInitTicks E" and "0 < maxTicks E" and "Debugger E payload = Inr d"
  shows "within_budget E (run E d)
    \<and> within_budget E (foldl (press E) (run E d) cs)
    \<and> within_budget E (foldl (press E) d cs)"
proof -
  have "within_budget E d"
    using Debugger_initial [OF assms(3)] assms(1) by (simp add: within_budget_def)
  then show ?thesis
    using assms(1,2) by (simp add: run_def within_budget_restart within_budget_presses)
qed

theorem counter_within_budget_witness:
  "within_budget (stub_vm 2 2 0 False 0)
     (foldl (press (stub_vm 2 2 0 False 0)) (stub_debugger Output) [Step, Step, Step, Restart, Step])
   \<and> within_budget (stub_vm 2 2 1 False 0)
     (foldl (press (stub_vm 2 2 1 False 0)) (stub_debugger Output) [Step, Step])"
proof -
  let ?E = "stub_vm 2 2 0 False 0"
  let ?F = "stub_vm 2 2 1 False 0"
  have E: "0 < maxInitTicks ?E" "0 < maxTicks ?E"
    "Debugger ?E sample_payload = Inr (stub_debugger Output)"
    by (simp_all add: stub_vm_def Debugger_def opcodes_of_def sample_payload_def
        stub_debugger_def hex_value_def)
  have F: "0 < maxInitTicks ?F" "0 < maxTicks ?F"
    "Debugger ?F sample_payload = Inr (stub_debugger Output)"
    by (simp_all add: stub_vm_def Debugger_def opcodes_of_def sample_payload_def
        stub_debugger_def hex_value_def)
  from counter_within_budget [OF E, of "[Step, Step, Step, Restart, Step]"]
    counter_within_budget [OF F, of "[Step, Step]"]
  show ?thesis by blast
qed

section \<open>Construction\<close>

lemma typeof_string: "typeof v = ''string'' \<longleftrightarrow> (\<exists>s. v = JStr s)"
  by (cases v) simp_all

lemma opcodes_of_not_assertion: "opcodes_of E v offset \<noteq> Inl (AssertionError msg)"
  by (simp add: opcodes_of_def split: jsval.splits sum.splits)

text \<open>The payload passes the four assertions exactly when all four conditions hold.\<close>

lemma Debugger_assertion_iff:
  "(\<exists>msg. Debugger E d = Inl (AssertionError msg)) \<longleftrightarrow>
     \<not> (truthy d \<and> typeof d = ''object''
        \<and> typeof (get_prop d ''hash'') = ''string''
        \<and> (isArray (get_prop d ''output'') \<or> isBuffer (get_prop d ''output''))
        \<and> (isArray (get_prop d ''input'') \<or> isBuffer (get_prop d ''input'')))"
  by (auto simp: Debugger_def opcodes_of_not_assertion split: sum.splits)

lemma assertions_pass_iff:
  "(truthy d \<and> typeof d = ''object''
      \<and> typeof (get_prop d ''hash'') = ''string''
      \<and> (isArray (get_prop d ''output'') \<or> isBuffer (get_prop d ''output''))
      \<and> (isArray (get_prop d ''input'') \<or> isBuffer (get_prop d ''input'')))
   \<longleftrightarrow>
   (\<exists>kvs s out inp. d = JObj kvs
      \<and> map_of kvs ''hash'' = Some (JStr s)
      \<and> map_of kvs ''output'' = Some out \<and> (isArray out \<or> isBuffer out)
      \<and> map_of kvs ''input'' = Some inp \<and> (isArray inp \<or> isBuffer inp))"
proof (cases d)
  case (JObj kvs)
  show ?thesis
    unfolding JObj typeof_string
    by (cases "map_of kvs ''hash''"; cases "map_of kvs ''output''"; cases "map_of kvs ''input''")
      auto
qed simp_all

text \<open>
  Claim C9, as amended. The constructor throws an assertion error if and only if the
  payload is not an object whose \<open>hash\<close> is a string (any string: that it is
  hexadecimal is not checked) and whose \<open>output\<close> and \<open>input\<close> are each an array or a
  buffer. A payload of that shape yields a debugger in the state \<open>'output'\<close> with
  counter 0, whose hash is what \<open>Buffer.from(hash, 'hex')\<close> decodes: always when
  \<open>output\<close> and \<open>input\<close> are buffers, and for an array when the compiler accepts that
  array at the offset of its thread. No later operation throws an assertion error: a
  session of \<open>run()\<close> and any menu items throws one exactly when its constructor does,
  and otherwise yields the debugger those operations compute.
\<close>

theorem construction_assertions:
  "((\<exists>msg. Debugger E d = Inl (AssertionError msg)) \<longleftrightarrow>
      \<not> (\<exists>kvs s out inp. d = JObj kvs
          \<and> map_of kvs ''hash'' = Some (JStr s)
          \<and> map_of kvs ''output'' = Some out \<and> (isArray out \<or> isBuffer out)
          \<and> map_of kvs ''input'' = Some inp \<and> (isArray inp \<or> isBuffer inp)))
   \<and> (\<forall>kvs s out inp. d = JObj kvs
          \<and> map_of kvs ''hash'' = Some (JStr s)
          \<and> map_of kvs ''output'' = Some (JBuf out)
          \<and> map_of kvs ''input'' = Some (JBuf inp)
        \<longrightarrow> Debugger E d =
              Inr \<lparr>data = \<lparr>data_hash = buffer_from_hex s, data_output = out, data_input = inp\<rparr>,
                   interpreter = newInterpreter E, state = Output, counter = 0\<rparr>)
   \<and> (\<forall>kvs s out inp o1 o2. d = JObj kvs
          \<and> map_of kvs ''hash'' = Some (JStr s)
          \<and> map_of kvs ''output'' = Some out
          \<and> ((\<exists>xs. out = JArr xs \<and> compileTextArray E xs (outputOffset E) = Inr o1)
              \<or> out = JBuf o1)
          \<and> map_of kvs ''input'' = Some inp
          \<and> ((\<exists>xs. inp = JArr xs \<and> compileTextArray E xs (inputOffset E) = Inr o2)
              \<or> inp = JBuf o2)
        \<longrightarrow> Debugger E d =
              Inr \<lparr>data = \<lparr>data_hash = buffer_from_hex s, data_output = o1, data_input = o2\<rparr>,
                   interpreter = newInterpreter E, state = Output, counter = 0\<rparr>)
   \<and> ((\<exists>msg. session E d cmds = Inl (AssertionError msg)) \<longleftrightarrow>
        (\<exists>msg. Debugger E d = Inl (AssertionError msg)))
   \<and> (\<forall>dbg. Debugger E d = Inr dbg \<longrightarrow>
        session E d cmds = Inr (foldl (press E) (run E dbg) cmds))"
proof (intro conjI allI impI)
  show "(\<exists>msg. Debugger E d = Inl (AssertionError msg)) \<longleftrightarrow>
      \<not> (\<exists>kvs s out inp. d = JObj kvs
          \<and> map_of kvs ''hash'' = Some (JStr s)
          \<and> map_of kvs ''output'' = Some out \<and> (isArray out \<or> isBuffer out)
          \<and> map_of kvs ''input'' = Some inp \<and> (isArray inp \<or> isBuffer inp))"
    unfolding Debugger_assertion_iff assertions_pass_iff ..
next
  fix kvs s out inp
  assume "d = JObj kvs
          \<and> map_of kvs ''hash'' = Some (JStr s)
          \<and> map_of kvs ''output'' = Some (JBuf out)
          \<and> map_of kvs ''input'' = Some (JBuf inp)"
  then show "Debugger E d =
      Inr \<lparr>data = \<lparr>data_hash = buffer_from_hex s, data_output = out, data_input = inp\<rparr>,
           interpreter = newInterpreter E, state = Output, counter = 0\<rparr>"
    by (simp add: Debugger_def opcodes_of_def)
next
  fix kvs s out inp o1 o2
  assume h: "d = JObj kvs
          \<and> map_of kvs ''hash'' = Some (JStr s)
          \<and> map_of kvs ''output'' = Some out
          \<and> ((\<exists>xs. out = JArr xs \<and> compileTextArray E xs (outputOffset E) = Inr o1)
              \<or> out = JBuf o1)
          \<and> map_of kvs ''input'' = Some inp
          \<and> ((\<exists>xs. inp = JArr xs \<and> compileTextArray E xs (inputOffset E) = Inr o2)
              \<or> inp = JBuf o2)"
  then have o1: "opcodes_of E out (outputOffset E) = Inr o1" "isArray out \<or> isBuffer out"
    by (auto simp: opcodes_of_def)
  from h have o2: "opcodes_of E inp (inputOffset E) = Inr o2" "isArray inp \<or> isBuffer inp"
    by (auto simp: opcodes_of_def)
  from h o1 o2 show "Debugger E d =
      Inr \<lparr>data = \<lparr>data_hash = buffer_from_hex s, data_output = o1, data_input = o2\<rparr>,
           interpreter = newInterpreter E, state = Output, counter = 0\<rparr>"
    by (simp add: Debugger_def)
next
  show "(\<exists>msg. session E d cmds = Inl (AssertionError msg)) \<longleftrightarrow>
        (\<exists>msg. Debugger E d = Inl (AssertionError msg))"
    by (cases "Debugger E d") (simp_all add: session_def)
next
  fix dbg
  assume "Debugger E d = Inr dbg"
  then show "session E d cmds = Inr (foldl (press E) (run E dbg) cmds)"
    by (simp add: session_def)
qed

theorem construction_assertions_witness:
  "(\<exists>msg. Debugger picky_vm (JArr []) = Inl (AssertionError msg))
   \<and> (\<exists>msg. session picky_vm (JArr []) [Step] = Inl (AssertionError msg))
   \<and> Debugger (stub_vm 3 2 0 False 0) sample_payload = Inr (stub_debugger Output)
   \<and> Debugger picky_vm array_payload =
       Inr \<lparr>data = \<lparr>data_hash = [0, 255], data_output = [0, 0, 0, 0], data_input = [3, 4]\<rparr>,
            interpreter = 0, state = Output, counter = 0\<rparr>
   \<and> session picky_vm array_payload [Step, Restart] =
       Inr \<lparr>data = \<lparr>data_hash = [0, 255], data_output = [0, 0, 0, 0], data_input = [3, 4]\<rparr>,
            interpreter = 0, state = Output, counter = 0\<rparr>"
proof -
  let ?E = "stub_vm 3 2 0 False 0"
  let ?kvs = "[(''hash'', JStr ''00ff''), (''output'', JArr [JStr ''nop'', JStr ''nop'']),
           (''input'', JBuf [3, 4])]"
  let ?dbg = "\<lparr>data = \<lparr>data_hash = [0, 255], data_output = [0, 0, 0, 0], data_input = [3, 4]\<rparr>,
            interpreter = 0, state = Output, counter = 0\<rparr> :: nat debugger"
  have bad: "\<exists>msg. Debugger picky_vm (JArr []) = Inl (AssertionError msg)"
    using construction_assertions [of picky_vm "JArr []"] by simp
  have bad_session: "\<exists>msg. session picky_vm (JArr []) [Step] = Inl (AssertionError msg)"
    using construction_assertions [of picky_vm "JArr []" "[Step]"] bad by blast
  have buffers: "Debugger ?E sample_payload = Inr (stub_debugger Output)"
    using construction_assertions [of ?E sample_payload]
    by (simp add: sample_payload_def stub_debugger_def stub_vm_def hex_value_def)
  have hex: "buffer_from_hex ''00ff'' = [0, 255]"
    by (simp add: hex_value_def)
  have accepted: "array_payload = JObj ?kvs
      \<and> map_of ?kvs ''hash'' = Some (JStr ''00ff'')
      \<and> map_of ?kvs ''output'' = Some (JArr [JStr ''nop'', JStr ''nop''])
      \<and> ((\<exists>xs. JArr [JStr ''nop'', JStr ''nop''] = JArr xs
            \<and> compileTextArray picky_vm xs (outputOffset picky_vm) = Inr [0, 0, 0, 0])
          \<or> JArr [JStr ''nop'', JStr ''nop''] = JBuf [0, 0, 0, 0])
      \<and> map_of ?kvs ''input'' = Some (JBuf [3, 4])
      \<and> ((\<exists>xs. JBuf [3, 4] = JArr xs
            \<and> compileTextArray picky_vm xs (inputOffset picky_vm) = Inr [3, 4])
          \<or> JBuf [3, 4] = JBuf [3, 4])"
    by (simp add: array_payload_def picky_vm_def nop_compiler_def)
  have arrays: "Debugger picky_vm array_payload = Inr ?dbg"
  proof -
    have "Debugger picky_vm array_payload =
        Inr \<lparr>data = \<lparr>data_hash = buffer_from_hex ''00ff'', data_output = [0, 0, 0, 0],
                       data_input = [3, 4]\<rparr>,
             interpreter = newInterpreter picky_vm, state = Output, counter = 0\<rparr>"
      using construction_assertions [of picky_vm array_payload] accepted by blast
    then show ?thesis unfolding hex by (simp add: picky_vm_def stub_vm_def)
  qed
  have "session picky_vm array_payload [Step, Restart] =
      Inr (foldl (press picky_vm) (run picky_vm ?dbg) [Step, Restart])"
    using construction_assertions [of picky_vm array_payload "[Step, Restart]"] arrays by blast
  then have whole: "session picky_vm array_payload [Step, Restart] = Inr ?dbg"
    by (simp add: run_def restart_def step_def stepOutput_def finish_def picky_vm_def
        stub_vm_def)
  from bad bad_session buffers arrays whole show ?thesis by blast
qed

text \<open>
  Claim C9 as first stated fails: a payload whose \<open>hash\<close> is the string \<open>zz\<close>, not a
  hex string, is accepted.
\<close>

theorem construction_hash_counterexample:
  "\<not> is_hex_string (get_prop unchecked_hash_payload ''hash'')
   \<and> Debugger (stub_vm 3 2 0 False 0) unchecked_hash_payload =
       Inr \<lparr>data = \<lparr>data_hash = [], data_output = [], data_input = []\<rparr>,
            interpreter = 0, state = Output, counter = 0\<rparr>"
  by (simp add: unchecked_hash_payload_def is_hex_string_def hex_value_def Debugger_def
      opcodes_of_def stub_vm_def)

section \<open>The viewport\<close>

lemma unshift_loop_eq:
  "unshift_loop n ls = replicate (nat (n - int (length ls))) ''...'' @ ls"
proof (induction n ls rule: unshift_loop.induct)
  case (1 n ls)
  show ?case
  proof (cases "int (length ls) < n")
    case True
    then have "nat (n - int (length ls)) = Suc (nat (n - int (length (''...'' # ls))))"
      by simp
    moreover have "unshift_loop n ls = unshift_loop n (''...'' # ls)"
      using True by (subst unshift_loop.simps) simp
    ultimately show ?thesis
      using 1 True by (simp add: replicate_app_Cons_same)
  next
    case False
    then show ?thesis by (subst unshift_loop.simps) simp
  qed
qed

lemma unshift_loop_rows:
  "0 \<le> r \<Longrightarrow> unshift_loop r ls = replicate (nat r - length ls) ''...'' @ ls"
  by (simp add: unshift_loop_eq nat_diff_distrib')

lemma length_unshift_loop: "length (unshift_loop n ls) = max (nat n) (length ls)"
  by (simp add: unshift_loop_eq)

lemma toInt32_id: "- (2 ^ 31) \<le> x \<Longrightarrow> x < 2 ^ 31 \<Longrightarrow> toInt32 x = x"
  by (simp add: toInt32_def)

lemma sar_1: "- (2 ^ 31) \<le> x \<Longrightarrow> x < 2 ^ 31 \<Longrightarrow> sar x 1 = x div 2"
  by (simp add: sar_def toInt32_id)

lemma contextBefore_rows:
  "0 \<le> r \<Longrightarrow> r < 2 ^ 31 \<Longrightarrow> contextBefore (r + 1) = r div 2"
  by (simp add: contextBefore_def sar_def toInt32_id)

lemma items_updateThread:
  "items (updateThread E st mem height th) =
     map (label_line (window_start height th) (contextBefore height))
       (enumerate 0 (unshift_loop (height - 1) (decoded_lines E mem height th)))"
  by (simp add: updateThread_def Let_def)

lemma nth_items_updateThread:
  assumes "i < length (items (updateThread E st mem height th))"
  shows "items (updateThread E st mem height th) ! i =
    (if int i = contextBefore height then ''* '' else ''  '')
      @ addr (max 0 (sar (window_start height th) 1 + int i)) @ '': ''
      @ unshift_loop (height - 1) (decoded_lines E mem height th) ! i"
  using assms by (simp add: items_updateThread nth_enumerate_eq label_line_def Let_def)

text \<open>
  Claim C2, as amended. For every row count \<open>rowCount \<ge> 1\<close> (the list box has the
  height \<open>rowCount + 1\<close>), every memory and every disassembler, the items are the
  labelled decoded lines, preceded by as many \<open>...\<close> rows as the decoded lines fall
  short of \<open>rowCount\<close>. Their number is the larger of \<open>rowCount\<close> and the number of
  decoded lines: exactly \<open>rowCount\<close> when the disassembler yields at most \<open>rowCount\<close>
  lines, and all decoded lines, none cut, when it yields more.
\<close>

theorem viewport_rows:
  assumes "1 \<le> rowCount"
  shows "items (updateThread E st mem (rowCount + 1) th) =
      map (label_line (window_start (rowCount + 1) th) (contextBefore (rowCount + 1)))
        (enumerate 0
          (replicate (nat rowCount - length (decoded_lines E mem (rowCount + 1) th)) ''...''
            @ decoded_lines E mem (rowCount + 1) th))
    \<and> length (items (updateThread E st mem (rowCount + 1) th)) =
      max (nat rowCount) (length (decoded_lines E mem (rowCount + 1) th))
    \<and> (length (decoded_lines E mem (rowCount + 1) th) \<le> nat rowCount \<longrightarrow>
        length (items (updateThread E st mem (rowCount + 1) th)) = nat rowCount)
    \<and> (nat rowCount < length (decoded_lines E mem (rowCount + 1) th) \<longrightarrow>
        length (items (updateThread E st mem (rowCount + 1) th)) =
          length (decoded_lines E mem (rowCount + 1) th))"
proof -
  have "0 \<le> rowCount" using assms by simp
  then have "unshift_loop (rowCount + 1 - 1) (decoded_lines E mem (rowCount + 1) th) =
      replicate (nat rowCount - length (decoded_lines E mem (rowCount + 1) th)) ''...''
        @ decoded_lines E mem (rowCount + 1) th"
    by (simp add: unshift_loop_rows)
  then show ?thesis
    by (simp add: items_updateThread)
qed

theorem viewport_rows_witness:
  "items (updateThread (stub_vm 3 2 0 False 0) Output [0, 0, 0, 0] (5 + 1) sample_thread) =
     [''  0x0000: ...'', ''  0x0000: ...'', ''* 0x0001: nop'', ''  0x0002: nop'', ''  0x0003: '']
   \<and> length (items (updateThread (stub_vm 3 2 0 False 0) Output [0, 0, 0, 0] (1 + 1) sample_thread)) = 2"
proof -
  let ?E = "stub_vm 3 2 0 False 0"
  have five: "decoded_lines ?E [0, 0, 0, 0] (5 + 1) sample_thread = [''nop'', ''nop'', []]"
    and one: "decoded_lines ?E [0, 0, 0, 0] (1 + 1) sample_thread = [''nop'', []]"
    by (simp_all add: decoded_lines_def window_code_def window_start_def window_end_def
        contextBefore_def contextAfter_def sar_def toInt32_def buffer_slice_def adjustOffset_def
        stub_vm_def sample_thread_def)
  have h5: "(1::int) \<le> 5" and h1: "(1::int) \<le> 1" by simp_all
  have pad: "replicate (nat 5 - length [''nop'', ''nop'', []]) ''...'' @ [''nop'', ''nop'', []] =
      [''...'', ''...'', ''nop'', ''nop'', []]"
    by (simp add: numeral_2_eq_2)
  have "items (updateThread ?E Output [0, 0, 0, 0] (5 + 1) sample_thread) =
      map (label_line (window_start (5 + 1) sample_thread) (contextBefore (5 + 1)))
        (enumerate 0 [''...'', ''...'', ''nop'', ''nop'', []])"
    using viewport_rows [OF h5, of ?E Output "[0, 0, 0, 0]" sample_thread, THEN conjunct1]
    unfolding five pad .
  also have "\<dots> =
      [''  0x0000: ...'', ''  0x0000: ...'', ''* 0x0001: nop'', ''  0x0002: nop'', ''  0x0003: '']"
    by (simp add: label_line_def window_start_def contextBefore_def sar_def toInt32_def
        sample_thread_def addr_def toString16_def toString16_nat_1 hex_digit_def)
  finally have rows: "items (updateThread ?E Output [0, 0, 0, 0] (5 + 1) sample_thread) =
      [''  0x0000: ...'', ''  0x0000: ...'', ''* 0x0001: nop'', ''  0x0002: nop'', ''  0x0003: '']" .
  have "length (items (updateThread ?E Output [0, 0, 0, 0] (1 + 1) sample_thread)) =
      max (nat 1) (length [''nop'', []])"
    using viewport_rows [OF h1, of ?E Output "[0, 0, 0, 0]" sample_thread, THEN conjunct2,
        THEN conjunct1]
    unfolding one .
  then have "length (items (updateThread ?E Output [0, 0, 0, 0] (1 + 1) sample_thread)) = 2"
    by simp
  with rows show ?thesis by (rule conjI)
qed

text \<open>
  Claim C2 as first stated fails: with one row, and a disassembler whose text for the
  two bytes of the window splits into two lines, the list gets two items.
\<close>

theorem viewport_rows_counterexample:
  "length (decoded_lines (stub_vm 3 2 0 False 0) [0, 0, 0, 0] (1 + 1) \<lparr>pc = 0, regs = []\<rparr>) = 2
   \<and> length (items (updateThread (stub_vm 3 2 0 False 0) Output [0, 0, 0, 0] (1 + 1)
        \<lparr>pc = 0, regs = []\<rparr>)) = 2
   \<and> length (items (updateThread (stub_vm 3 2 0 False 0) Output [0, 0, 0, 0] (1 + 1)
        \<lparr>pc = 0, regs = []\<rparr>)) \<noteq> 1"
  by (simp add: items_updateThread length_unshift_loop decoded_lines_def window_code_def
      window_start_def window_end_def contextBefore_def contextAfter_def sar_def toInt32_def
      buffer_slice_def adjustOffset_def stub_vm_def)

text \<open>
  Claim C8. For a row count \<open>1 \<le> rowCount\<close> and a program counter that are signed
  32-bit numbers, the program counter not negative: \<open>contextBefore\<close> is
  \<open>rowCount div 2\<close> (2 for 5 rows and for 4 rows) and \<open>contextAfter\<close> the rest; the
  selected row is \<open>contextBefore\<close> and is a row of the list; and the item at every
  index \<open>i\<close> is the marker (\<open>"* "\<close> at \<open>contextBefore\<close>, two spaces elsewhere), the
  label \<open>addr (max 0 (start div 2 + i))\<close>, a colon and a space, and the line, where
  \<open>start\<close> is \<open>pc - 2 * contextBefore\<close>.
\<close>

theorem current_row_and_labels:
  assumes "1 \<le> rowCount" and "rowCount < 2 ^ 31" and "0 \<le> pc th" and "pc th < 2 ^ 31"
  shows "contextBefore (rowCount + 1) = rowCount div 2
    \<and> contextAfter (rowCount + 1) = rowCount - rowCount div 2
    \<and> window_start (rowCount + 1) th = pc th - 2 * (rowCount div 2)
    \<and> selected (updateThread E st mem (rowCount + 1) th) = rowCount div 2
    \<and> nat (rowCount div 2) < length (items (updateThread E st mem (rowCount + 1) th))
    \<and> (\<forall>i<length (items (updateThread E st mem (rowCount + 1) th)).
          items (updateThread E st mem (rowCount + 1) th) ! i =
            (if int i = rowCount div 2 then ''* '' else ''  '')
              @ addr (max 0 (window_start (rowCount + 1) th div 2 + int i)) @ '': ''
              @ unshift_loop rowCount (decoded_lines E mem (rowCount + 1) th) ! i)
    \<and> contextBefore (5 + 1) = 2
    \<and> contextBefore (4 + 1) = 2"
proof -
  have cb: "contextBefore (rowCount + 1) = rowCount div 2"
    using assms by (simp add: contextBefore_rows)
  have ws: "window_start (rowCount + 1) th = pc th - 2 * (rowCount div 2)"
    by (simp add: window_start_def cb)
  have "- (2 ^ 31) \<le> window_start (rowCount + 1) th" "window_start (rowCount + 1) th < 2 ^ 31"
    using assms unfolding ws by linarith+
  then have shift: "sar (window_start (rowCount + 1) th) 1 = window_start (rowCount + 1) th div 2"
    by (rule sar_1)
  have len: "nat (rowCount div 2) < length (items (updateThread E st mem (rowCount + 1) th))"
  proof -
    have "nat (rowCount div 2) < nat rowCount" using assms(1) by linarith
    also have "nat rowCount \<le> length (unshift_loop rowCount (decoded_lines E mem (rowCount + 1) th))"
      unfolding length_unshift_loop by (rule max.cobounded1)
    finally show ?thesis by (simp add: items_updateThread)
  qed
  have rows: "items (updateThread E st mem (rowCount + 1) th) ! i =
            (if int i = rowCount div 2 then ''* '' else ''  '')
              @ addr (max 0 (window_start (rowCount + 1) th div 2 + int i)) @ '': ''
              @ unshift_loop rowCount (decoded_lines E mem (rowCount + 1) th) ! i"
    if "i < length (items (updateThread E st mem (rowCount + 1) th))" for i
    using nth_items_updateThread [OF that] by (simp add: cb shift [unfolded One_nat_def])
  have ex: "contextBefore (5 + 1) = 2" "contextBefore (4 + 1) = 2"
    by (simp_all add: contextBefore_def sar_def toInt32_def)
  have sel: "selected (updateThread E st mem (rowCount + 1) th) = rowCount div 2"
    by (simp add: updateThread_def Let_def cb)
  show ?thesis
    using cb ws sel len rows ex by (simp add: contextAfter_def)
qed

theorem current_row_and_labels_witness:
  "selected (updateThread (stub_vm 3 2 0 False 0) Output [0, 0, 0, 0] (3 + 1) sample_thread) = 1
   \<and> items (updateThread (stub_vm 3 2 0 False 0) Output [0, 0, 0, 0] (3 + 1) sample_thread) ! 1 =
       ''* 0x0001: nop''
   \<and> items (updateThread (stub_vm 3 2 0 False 0) Output [0, 0, 0, 0] (3 + 1) sample_thread) ! 0 =
       ''  0x0000: nop''"
proof -
  let ?E = "stub_vm 3 2 0 False 0"
  let ?p = "updateThread ?E Output [0, 0, 0, 0] (3 + 1) sample_thread"
  have three: "decoded_lines ?E [0, 0, 0, 0] (3 + 1) sample_thread = [''nop'', ''nop'', []]"
    by (simp add: decoded_lines_def window_code_def window_start_def window_end_def
        contextBefore_def contextAfter_def sar_def toInt32_def buffer_slice_def adjustOffset_def
        stub_vm_def sample_thread_def)
  have pad: "unshift_loop 3 [''nop'', ''nop'', []] = [''nop'', ''nop'', []]"
    by (simp add: unshift_loop_eq)
  have len: "length (items ?p) = 3"
    unfolding items_updateThread three by (simp add: length_unshift_loop)
  have h: "(1::int) \<le> 3" "(3::int) < 2 ^ 31" "0 \<le> pc sample_thread" "pc sample_thread < 2 ^ 31"
    by (simp_all add: sample_thread_def)
  note t = current_row_and_labels [OF h, of ?E Output "[0, 0, 0, 0]"]
  from t have sel: "selected ?p = 1" by simp
  from t have ws: "window_start (3 + 1) sample_thread = 0"
    by (simp add: sample_thread_def)
  from t have rows: "\<forall>i<length (items ?p). items ?p ! i =
      (if int i = 3 div 2 then ''* '' else ''  '')
        @ addr (max 0 (window_start (3 + 1) sample_thread div 2 + int i)) @ '': ''
        @ unshift_loop 3 (decoded_lines ?E [0, 0, 0, 0] (3 + 1) sample_thread) ! i"
    by blast
  have "items ?p ! 1 = ''* 0x0001: nop''"
    using rows [unfolded three ws pad len, rule_format, of 1]
    by (simp add: addr_def toString16_def toString16_nat_1 hex_digit_def)
  moreover have "items ?p ! 0 = ''  0x0000: nop''"
    using rows [unfolded three ws pad len, rule_format, of 0]
    by (simp add: addr_def toString16_def toString16_nat_1 hex_digit_def)
  ultimately show ?thesis using sel by simp
qed

end
